theory Spec2Isabelle
  imports Complex_Main "HOL-Library.Multiset" "HOL-Library.AList" "HOL-Library.Char_ord"
    "HOL-Library.List_Lexorder" "HOL-Library.Sublist"
begin

section \<open>The variable model of \<^verbatim>\<open>polytropos/ontology/variable/__variable.py\<close>\<close>

text \<open>
  Python exceptions are values. Only the exception classes that the modelled functions
  raise (explicitly, or through a failing dictionary lookup or attribute access) appear.
\<close>

datatype error = ValueError | KeyError | RuntimeError | TypeError | AttributeError
  | AssertionError | SourceNotFoundException

text \<open>
  The concrete classes at the leaves of the class hierarchy, and the hierarchy itself:
  \<^verbatim>\<open>Variable > Container > Folder\<close>, \<^verbatim>\<open>Container > GenericList > List, NamedList\<close>,
  \<^verbatim>\<open>Variable > Primitive > Integer, Text, ...\<close>.
\<close>

datatype kind = Folder | List | NamedList
  | Integer | Text | Decimal | Unary | Binary | Currency | Phone | Email | URL | Date

datatype py_class = Variable | Container | Primitive | GenericList | Concrete kind

fun base_class :: "py_class \<Rightarrow> py_class option" where
  "base_class Variable = None"
| "base_class Container = Some Variable"
| "base_class Primitive = Some Variable"
| "base_class GenericList = Some Container"
| "base_class (Concrete Folder) = Some Container"
| "base_class (Concrete List) = Some GenericList"
| "base_class (Concrete NamedList) = Some GenericList"
| "base_class (Concrete k) = Some Primitive"

text \<open>The hierarchy is three levels deep, so three steps upwards reach every superclass.\<close>

definition issubclass :: "py_class \<Rightarrow> py_class \<Rightarrow> bool" where
  "issubclass c d =
     (c = d \<or> base_class c = Some d
      \<or> Option.bind (base_class c) base_class = Some d
      \<or> Option.bind (Option.bind (base_class c) base_class) base_class = Some d)"

text \<open>
  The keys of \<^verbatim>\<open>self._cache\<close> under which the three memoized properties store their
  results.
\<close>

datatype cache_key = K_relative_path | K_absolute_path | K_tree

text \<open>
  The dictionary that \<^verbatim>\<open>Variable.tree\<close> builds: title, variable id, class name and the
  trees of the children (the key \<^verbatim>\<open>children\<close> is absent when the list is empty).
\<close>

datatype tree = Node (title: string) (varId: string) (dataType: string) (subtrees: "tree list")

datatype cache_value = Path "string list" | Tree tree

text \<open>
  A \<^verbatim>\<open>Variable\<close> object. \<open>data_type\<close> is the object's class (\<^verbatim>\<open>self.__class__\<close>);
  \<open>cache\<close> is the dictionary \<^verbatim>\<open>self._cache\<close> of the memoized properties. The free-text
  metadata attributes carry no behaviour in the functions modelled here and are left out.
  The owning track is not a field: every function that reads \<^verbatim>\<open>self.track\<close> takes the
  track as an argument.
\<close>

record variable =
  var_id :: string
  name :: string
  sort_order :: int
  sources :: "string list"
  parent :: "string option"
  data_type :: kind
  cache :: "(cache_key \<times> cache_value) list"

text \<open>
  A track is used by the source as a dictionary from variable id to variable object
  (\<^verbatim>\<open>track[i]\<close>, \<^verbatim>\<open>i in track\<close>, \<^verbatim>\<open>track.values()\<close>): an association list in
  insertion order.
\<close>

type_synonym track = "(string \<times> variable) list"

definition isinstance :: "variable \<Rightarrow> py_class \<Rightarrow> bool" where
  "isinstance v c = issubclass (Concrete (data_type v)) c"

subsection \<open>Equality and hashing\<close>

text \<open>
  \<^verbatim>\<open>__eq__\<close>: \<^verbatim>\<open>isinstance(other, self.__class__) and other.var_id == self.var_id\<close>.
  \<^verbatim>\<open>__hash__\<close>: \<^verbatim>\<open>hash(self.var_id)\<close>; Python's string hash is a parameter. (The branch
  for \<^verbatim>\<open>var_id is None\<close> cannot be taken by a \<open>var_id\<close> of type string.)
\<close>

definition Variable_eq :: "variable \<Rightarrow> variable \<Rightarrow> bool" where
  "Variable_eq self other =
     (isinstance other (Concrete (data_type self)) \<and> var_id other = var_id self)"

definition Variable_hash :: "(string \<Rightarrow> int) \<Rightarrow> variable \<Rightarrow> int" where
  "Variable_hash hash self = hash (var_id self)"

subsection \<open>Primitive casters\<close>

text \<open>
  A raw value handed to a caster: \<^verbatim>\<open>None\<close>, a boolean, an integer or a string.
  Strings are lists of characters with code points below 256.
\<close>

datatype raw = RNone | RBool bool | RInt int | RStr string

text \<open>\<^verbatim>\<open>str.lower\<close> on code points below 256: A-Z and the Latin-1 capitals move up by 32.\<close>

definition lower_char :: "char \<Rightarrow> char" where
  "lower_char c =
     (let n = (of_char c :: nat)
      in if (65 \<le> n \<and> n \<le> 90) \<or> (192 \<le> n \<and> n \<le> 222 \<and> n \<noteq> 215)
         then char_of (n + 32) else c)"

definition lower :: "string \<Rightarrow> string" where
  "lower s = map lower_char s"

definition Binary_cast :: "raw \<Rightarrow> error + bool option" where
  "Binary_cast value =
     (if value = RNone \<or> value = RStr '''' then Inr None
      else case value of
          RBool b \<Rightarrow> Inr (Some b)
        | RStr s \<Rightarrow>
            (let vl = lower s
             in if vl \<in> {''1'', ''true''} then Inr (Some True)
                else if vl \<in> {''0'', ''false''} then Inr (Some False)
                else Inl ValueError)
        | _ \<Rightarrow> Inl AttributeError)"

text \<open>
  Case-insensitive equality with a pattern, stated without \<open>lower\<close>: a character
  matches a pattern character when it is that character, or when the pattern character is
  one of a-z and the character is the capital 32 code points below it.
\<close>

definition same_letter :: "char \<Rightarrow> char \<Rightarrow> bool" where
  "same_letter c p =
     (c = p \<or> (97 \<le> (of_char p :: nat) \<and> (of_char p :: nat) \<le> 122
               \<and> (of_char c :: nat) + 32 = of_char p))"

definition equals_ignoring_case :: "string \<Rightarrow> string \<Rightarrow> bool" where
  "equals_ignoring_case s p = list_all2 same_letter s p"

definition plain_lowercase :: "char \<Rightarrow> bool" where
  "plain_lowercase p =
     ((of_char p :: nat) < 128 \<and> \<not> (65 \<le> (of_char p :: nat) \<and> (of_char p :: nat) \<le> 90))"

subsection \<open>Source validation\<close>

text \<open>
  \<^verbatim>\<open>_incompatible_type\<close>, \<^verbatim>\<open>_check_folder_has_sources\<close>, \<^verbatim>\<open>_verify_source_exists\<close>,
  \<^verbatim>\<open>_verify_source_compatible\<close> and \<^verbatim>\<open>Validator.validate_sources\<close>. The upstream track
  \<^verbatim>\<open>variable.track.source\<close> is the argument \<open>track_source\<close>; the two verifiers assert that
  it is not \<^verbatim>\<open>None\<close>.
\<close>

definition incompatible_type :: "variable \<Rightarrow> variable \<Rightarrow> bool" where
  "incompatible_type source_var variable =
     (if data_type variable = List then data_type source_var \<notin> {List, Folder}
      else data_type source_var \<noteq> data_type variable)"

definition check_folder_has_sources :: "variable \<Rightarrow> string list \<Rightarrow> error + unit" where
  "check_folder_has_sources variable srcs =
     (if length srcs > 0 \<and> isinstance variable (Concrete Folder) then Inl ValueError
      else Inr ())"

definition verify_source_exists :: "track option \<Rightarrow> variable \<Rightarrow> string \<Rightarrow> error + unit" where
  "verify_source_exists track_source variable source_var_id =
     (case track_source of
        None \<Rightarrow> Inl AssertionError
      | Some st \<Rightarrow> if map_of st source_var_id = None then Inl ValueError else Inr ())"

definition verify_source_compatible :: "track option \<Rightarrow> variable \<Rightarrow> string \<Rightarrow> error + unit" where
  "verify_source_compatible track_source variable source_var_id =
     (case track_source of
        None \<Rightarrow> Inl AssertionError
      | Some st \<Rightarrow>
          (case map_of st source_var_id of
             None \<Rightarrow> Inl KeyError
           | Some source_var \<Rightarrow>
               if incompatible_type source_var variable then Inl ValueError else Inr ()))"

text \<open>The \<^verbatim>\<open>for source in sources\<close> loop: the first failing check raises.\<close>

fun verify_each :: "track option \<Rightarrow> variable \<Rightarrow> string list \<Rightarrow> error + unit" where
  "verify_each track_source variable [] = Inr ()"
| "verify_each track_source variable (source # rest) =
     (case verify_source_exists track_source variable source of
        Inl e \<Rightarrow> Inl e
      | Inr _ \<Rightarrow>
          (case verify_source_compatible track_source variable source of
             Inl e \<Rightarrow> Inl e
           | Inr _ \<Rightarrow> verify_each track_source variable rest))"

definition validate_sources :: "track option \<Rightarrow> variable \<Rightarrow> string list \<Rightarrow> bool \<Rightarrow> error + unit" where
  "validate_sources track_source variable srcs init =
     (case (if \<not> init then check_folder_has_sources variable srcs else Inr ()) of
        Inl e \<Rightarrow> Inl e
      | Inr _ \<Rightarrow> if srcs \<noteq> [] then verify_each track_source variable srcs else Inr ())"

text \<open>
  The compatibility rule in the words of the specification: the kinds are identical, or
  the referencing variable is a List and the source is a Folder.
\<close>

definition compatible_kinds :: "kind \<Rightarrow> kind \<Rightarrow> bool" where
  "compatible_kinds variable_kind source_kind =
     (source_kind = variable_kind \<or> (variable_kind = List \<and> source_kind = Folder))"

text \<open>
  A variable of a given id and kind, named by its id, with no parent, no sources and an
  empty cache: the starting point of the concrete tracks below.
\<close>

definition mk_var :: "string \<Rightarrow> kind \<Rightarrow> variable" where
  "mk_var i k = \<lparr>var_id = i, name = i, sort_order = 0, sources = [], parent = None,
                 data_type = k, cache = []\<rparr>"

subsection \<open>The Date caster\<close>

















section \<open>Documents and the document value provider\<close>

text \<open>
  A document value is what \<^verbatim>\<open>json.load\<close> produces. A dictionary is an association list in
  insertion order; \<open>map_of\<close> is the lookup \<^verbatim>\<open>d[k]\<close> and \<open>AList.update\<close> the assignment
  \<^verbatim>\<open>d[k] = v\<close> (in place for a present key, appended for a new one). Floats are modelled
  by the rationals.
\<close>

datatype json = JNull | JBool bool | JInt int | JFloat rat | JStr string
  | JList "json list" | JDict "(string \<times> json) list"

type_synonym document = "(string \<times> json) list"









section \<open>The NamedList translator\<close>

text \<open>
  The translator's state: the accumulated \<^verbatim>\<open>result\<close> dictionary and its two flags.
\<close>

record named_list_translator =
  result :: "(string \<times> json) list"
  has_result :: bool
  skip_source_not_found :: bool

text \<open>
  \<^verbatim>\<open>initial_result\<close> and \<^verbatim>\<open>initialize\<close>, then \<^verbatim>\<open>process_source_value\<close>. The element
  translator \<^verbatim>\<open>self.translator.translate\<close> is the parameter \<open>translate\<close>; it may raise.
\<close>

definition initial_translator :: named_list_translator where
  "initial_translator = \<lparr>result = [], has_result = True, skip_source_not_found = False\<rparr>"

fun process_items ::
  "(json \<Rightarrow> string \<Rightarrow> string \<Rightarrow> error + json) \<Rightarrow> string \<Rightarrow> string \<Rightarrow>
   (string \<times> json) list \<Rightarrow> named_list_translator \<Rightarrow> error + named_list_translator" where
  "process_items translate variable_id source_id [] self = Inr self"
| "process_items translate variable_id source_id ((key, item) # rest) self =
     (if map_of (result self) key \<noteq> None then Inl ValueError
      else case translate item variable_id source_id of
             Inl e \<Rightarrow> Inl e
           | Inr translated \<Rightarrow>
               process_items translate variable_id source_id rest
                 (self\<lparr>result := AList.update key translated (result self), has_result := True\<rparr>))"

definition process_source_value ::
  "(json \<Rightarrow> string \<Rightarrow> string \<Rightarrow> error + json) \<Rightarrow> string \<Rightarrow>
   (string \<times> json) list option \<Rightarrow> string \<Rightarrow> named_list_translator \<Rightarrow> error + named_list_translator" where
  "process_source_value translate variable_id source_value source_id self =
     (case source_value of
        None \<Rightarrow> Inl RuntimeError
      | Some items \<Rightarrow> process_items translate variable_id source_id items self)"

text \<open>
  Modelled from the spec: the accumulation loop of the translator's base class is not
  part of the sources. The specification has a translator accumulate its result from zero
  or more (source value, source id) pairs: starting from the initial state, each pair is
  handed to \<open>process_source_value\<close> in order, and the first exception ends the run.
\<close>

fun accumulate ::
  "(json \<Rightarrow> string \<Rightarrow> string \<Rightarrow> error + json) \<Rightarrow> string \<Rightarrow>
   ((string \<times> json) list option \<times> string) list \<Rightarrow> named_list_translator \<Rightarrow> error + named_list_translator" where
  "accumulate translate variable_id [] self = Inr self"
| "accumulate translate variable_id ((source_value, source_id) # rest) self =
     (case process_source_value translate variable_id source_value source_id self of
        Inl e \<Rightarrow> Inl e
      | Inr self' \<Rightarrow> accumulate translate variable_id rest self')"

text \<open>
  The contributed elements of a run, in order: every (key, element, source id) of every
  source mapping.
\<close>

definition contributed :: "((string \<times> json) list \<times> string) list \<Rightarrow> (string \<times> json \<times> string) list" where
  "contributed pairs =
     concat (map (\<lambda>(items, source_id). map (\<lambda>(key, item). (key, item, source_id)) items) pairs)"

section \<open>Children, siblings and sort orders\<close>

text \<open>
  \<^verbatim>\<open>Variable.children\<close>: the variables of the track whose parent is \<open>self\<close>, in the order
  of \<^verbatim>\<open>track.values()\<close>.
\<close>

definition children :: "track \<Rightarrow> variable \<Rightarrow> variable list" where
  "children track self =
     filter (\<lambda>variable. parent variable = Some (var_id self)) (map snd track)"

text \<open>
  Modelled from the spec: \<^verbatim>\<open>Track.roots\<close> is not part of the sources. The specification
  describes the roots of a track as its root variables, those with no parent.
\<close>

definition roots :: "track \<Rightarrow> variable list" where
  "roots track = filter (\<lambda>variable. parent variable = None) (map snd track)"

text \<open>
  \<^verbatim>\<open>Variable.siblings\<close>: the ids of the roots, or of the children of the parent;
  \<^verbatim>\<open>self.track[self.parent]\<close> raises \<^verbatim>\<open>KeyError\<close> for a parent id that is not in the track.
\<close>

definition siblings :: "track \<Rightarrow> variable \<Rightarrow> error + string list" where
  "siblings track self =
     (case parent self of
        None \<Rightarrow> Inr (map var_id (roots track))
      | Some p \<Rightarrow>
          (case map_of track p of
             None \<Rightarrow> Inl KeyError
           | Some parent_var \<Rightarrow> Inr (map var_id (children track parent_var))))"

text \<open>
  \<^verbatim>\<open>Variable.update_sort_order\<close>. The loop visits the sibling ids in order, skips
  \<open>self\<close>, and adds \<open>diff\<close> to the sort order of the object \<^verbatim>\<open>self.track[sibling]\<close>.
\<close>

fun shift_siblings :: "string \<Rightarrow> int \<Rightarrow> int \<Rightarrow> string list \<Rightarrow> track \<Rightarrow> error + track" where
  "shift_siblings self_id old_order new_order [] track = Inr track"
| "shift_siblings self_id old_order new_order (sibling # rest) track =
     (if sibling = self_id then shift_siblings self_id old_order new_order rest track
      else case map_of track sibling of
             None \<Rightarrow> Inl KeyError
           | Some sv \<Rightarrow>
               (let diff = (if sort_order sv \<ge> new_order then 1 else 0)
                         + (if sort_order sv \<ge> old_order then - 1 else 0)
                in shift_siblings self_id old_order new_order rest
                     (AList.update sibling (sv\<lparr>sort_order := sort_order sv + diff\<rparr>) track)))"

definition update_sort_order ::
  "track \<Rightarrow> variable \<Rightarrow> int option \<Rightarrow> int option \<Rightarrow> error + track" where
  "update_sort_order track self old_order new_order =
     (case siblings track self of
        Inl e \<Rightarrow> Inl e
      | Inr sibs \<Rightarrow>
          (let old = (case old_order of None \<Rightarrow> int (length sibs) + 1 | Some n \<Rightarrow> n);
               new = (case new_order of None \<Rightarrow> int (length sibs) + 1 | Some n \<Rightarrow> n)
           in shift_siblings (var_id self) old new sibs track))"

text \<open>
  A track as a Python dictionary has distinct keys, and a track files every variable under
  its own id.
\<close>

definition track_wf :: "track \<Rightarrow> bool" where
  "track_wf track = (distinct (map fst track) \<and> list_all (\<lambda>(i, v). var_id v = i) track)"

text \<open>
  The existing siblings of a variable: the other variables of the track with the same
  parent.
\<close>

definition existing_siblings :: "track \<Rightarrow> variable \<Rightarrow> variable list" where
  "existing_siblings track self =
     filter (\<lambda>w. parent w = parent self \<and> var_id w \<noteq> var_id self) (map snd track)"

definition parent_present :: "track \<Rightarrow> variable \<Rightarrow> bool" where
  "parent_present track self =
     (case parent self of None \<Rightarrow> True | Some p \<Rightarrow> map_of track p \<noteq> None)"

section \<open>Ancestor check\<close>

text \<open>
  \<^verbatim>\<open>Variable.check_ancestor\<close>. The recursive call passes only the parent id, so
  \<open>stop_at_list\<close> takes its default \<^verbatim>\<open>False\<close> from the second level on. The conjunction
  \<^verbatim>\<open>stop_at_list and isinstance(self.track[variable.parent], GenericList)\<close> looks the parent
  up only when \<open>stop_at_list\<close> holds. On a cyclic parent chain the recursion does not end.
\<close>

partial_function (option) check_ancestor ::
  "track \<Rightarrow> variable \<Rightarrow> string \<Rightarrow> bool \<Rightarrow> (error + bool) option" where
  "check_ancestor track self child_id stop_at_list =
     (case map_of track child_id of
        None \<Rightarrow> Some (Inl KeyError)
      | Some variable \<Rightarrow>
          (case parent variable of
             None \<Rightarrow> Some (Inr False)
           | Some p \<Rightarrow>
               (case (if stop_at_list
                      then (case map_of track p of
                              None \<Rightarrow> Inl KeyError
                            | Some parent_var \<Rightarrow> Inr (isinstance parent_var GenericList))
                      else Inr False) of
                  Inl e \<Rightarrow> Some (Inl e)
                | Inr at_list \<Rightarrow>
                    if at_list then Some (Inr False)
                    else if p = var_id self then Some (Inr True)
                    else check_ancestor track self p False)))"

text \<open>
  A track for concrete evaluation: the Folder \<open>V\<close> at the root, the List \<open>L\<close> below it,
  the Folder \<open>F\<close> below the list and the Text \<open>C\<close> below that folder.
\<close>

definition nested_track :: track where
  "nested_track =
     [(''V'', mk_var ''V'' Folder),
      (''L'', (mk_var ''L'' List)\<lparr>parent := Some ''V''\<rparr>),
      (''F'', (mk_var ''F'' Folder)\<lparr>parent := Some ''L''\<rparr>),
      (''C'', (mk_var ''C'' Text)\<lparr>parent := Some ''F''\<rparr>)]"

section \<open>Memoized properties and renaming\<close>

text \<open>
  The memoized properties are read through the track: a variable object is addressed by
  its id, and a read returns the value together with the track whose caches it has
  filled. \<open>memo\<close> is the store \<^verbatim>\<open>self._cache[key] = value\<close> that \<^verbatim>\<open>cachedmethod\<close> does
  after a miss.
\<close>

definition memo :: "string \<Rightarrow> cache_key \<Rightarrow> cache_value \<Rightarrow> track \<Rightarrow> track" where
  "memo self_id k v track =
     (case map_of track self_id of
        None \<Rightarrow> track
      | Some self \<Rightarrow> AList.update self_id (self\<lparr>cache := AList.update k v (cache self)\<rparr>) track)"

text \<open>
  \<^verbatim>\<open>Variable.absolute_path\<close>: \<^verbatim>\<open>not self.parent\<close> holds for \<^verbatim>\<open>None\<close> and for the empty id.
\<close>

partial_function (option) absolute_path ::
  "track \<Rightarrow> string \<Rightarrow> (error + string list \<times> track) option" where
  "absolute_path track self_id =
     (case map_of track self_id of
        None \<Rightarrow> Some (Inl KeyError)
      | Some self \<Rightarrow>
          (case map_of (cache self) K_absolute_path of
             Some (Path cached) \<Rightarrow> Some (Inr (cached, track))
           | _ \<Rightarrow>
               if parent self = None \<or> parent self = Some []
               then Some (Inr ([name self], memo self_id K_absolute_path (Path [name self]) track))
               else Option.bind (absolute_path track (the (parent self)))
                      (\<lambda>r. case r of
                             Inl e \<Rightarrow> Some (Inl e)
                           | Inr (parent_path, track') \<Rightarrow>
                               Some (Inr (parent_path @ [name self],
                                 memo self_id K_absolute_path (Path (parent_path @ [name self])) track')))))"

text \<open>\<^verbatim>\<open>Variable.relative_path\<close>: the path restarts below a list.\<close>

partial_function (option) relative_path ::
  "track \<Rightarrow> string \<Rightarrow> (error + string list \<times> track) option" where
  "relative_path track self_id =
     (case map_of track self_id of
        None \<Rightarrow> Some (Inl KeyError)
      | Some self \<Rightarrow>
          (case map_of (cache self) K_relative_path of
             Some (Path cached) \<Rightarrow> Some (Inr (cached, track))
           | _ \<Rightarrow>
               if parent self = None \<or> parent self = Some []
               then Some (Inr ([name self], memo self_id K_relative_path (Path [name self]) track))
               else (case map_of track (the (parent self)) of
                       None \<Rightarrow> Some (Inl KeyError)
                     | Some parent_var \<Rightarrow>
                         if isinstance parent_var GenericList
                         then Some (Inr ([name self],
                                memo self_id K_relative_path (Path [name self]) track))
                         else Option.bind (relative_path track (the (parent self)))
                                (\<lambda>r. case r of
                                       Inl e \<Rightarrow> Some (Inl e)
                                     | Inr (parent_path, track') \<Rightarrow>
                                         Some (Inr (parent_path @ [name self],
                                           memo self_id K_relative_path
                                             (Path (parent_path @ [name self])) track'))))))"

text \<open>\<^verbatim>\<open>self.__class__.__name__\<close>, the value of the property \<^verbatim>\<open>data_type\<close>.\<close>

fun class_name :: "kind \<Rightarrow> string" where
  "class_name Folder = ''Folder''"
| "class_name List = ''List''"
| "class_name NamedList = ''NamedList''"
| "class_name Integer = ''Integer''"
| "class_name Text = ''Text''"
| "class_name Decimal = ''Decimal''"
| "class_name Unary = ''Unary''"
| "class_name Binary = ''Binary''"
| "class_name Currency = ''Currency''"
| "class_name Phone = ''Phone''"
| "class_name Email = ''Email''"
| "class_name URL = ''URL''"
| "class_name Date = ''Date''"

text \<open>
  \<^verbatim>\<open>Variable.tree\<close>: the trees of the children in the stable order of their sort orders,
  each read through the child's own memoized property. The recursion follows the child
  links, which need not be well-founded in an arbitrary track: \<open>fuel\<close> bounds the depth,
  and \<open>None\<close> is the run that has not ended within it.
\<close>

fun tree_of :: "nat \<Rightarrow> track \<Rightarrow> string \<Rightarrow> (error + tree \<times> track) option"
  and trees_of :: "nat \<Rightarrow> track \<Rightarrow> string list \<Rightarrow> (error + tree list \<times> track) option" where
  "tree_of 0 track self_id = None"
| "tree_of (Suc fuel) track self_id =
     (case map_of track self_id of
        None \<Rightarrow> Some (Inl KeyError)
      | Some self \<Rightarrow>
          (case map_of (cache self) K_tree of
             Some (Tree cached) \<Rightarrow> Some (Inr (cached, track))
           | _ \<Rightarrow>
               (case trees_of fuel track (map var_id (sort_key sort_order (children track self))) of
                  None \<Rightarrow> None
                | Some (Inl e) \<Rightarrow> Some (Inl e)
                | Some (Inr (kids, track')) \<Rightarrow>
                    (let t = Node (name self) (var_id self) (class_name (data_type self)) kids
                     in Some (Inr (t, memo self_id K_tree (Tree t) track'))))))"
| "trees_of fuel track [] = Some (Inr ([], track))"
| "trees_of fuel track (child # rest) =
     (case tree_of fuel track child of
        None \<Rightarrow> None
      | Some (Inl e) \<Rightarrow> Some (Inl e)
      | Some (Inr (t, track')) \<Rightarrow>
          (case trees_of fuel track' rest of
             None \<Rightarrow> None
           | Some (Inl e) \<Rightarrow> Some (Inl e)
           | Some (Inr (ts, track'')) \<Rightarrow> Some (Inr (t # ts, track''))))"

text \<open>
  \<^verbatim>\<open>Validator.validate_name\<close>: no path delimiter in the name, and no other sibling of that
  name.
\<close>

fun names_of :: "track \<Rightarrow> string list \<Rightarrow> error + string list" where
  "names_of track [] = Inr []"
| "names_of track (sibling # rest) =
     (case map_of track sibling of
        None \<Rightarrow> Inl KeyError
      | Some w \<Rightarrow> (case names_of track rest of Inl e \<Rightarrow> Inl e | Inr ns \<Rightarrow> Inr (name w # ns)))"

definition validate_name :: "track \<Rightarrow> variable \<Rightarrow> string \<Rightarrow> error + unit" where
  "validate_name track variable nm =
     (if CHR ''/'' \<in> set nm \<or> CHR ''.'' \<in> set nm then Inl ValueError
      else case siblings track variable of
             Inl e \<Rightarrow> Inl e
           | Inr sibs \<Rightarrow>
               (case names_of track (filter (\<lambda>sibling. sibling \<noteq> var_id variable) sibs) of
                  Inl e \<Rightarrow> Inl e
                | Inr sibling_names \<Rightarrow>
                    if nm \<in> set sibling_names then Inl ValueError else Inr ()))"

text \<open>\<^verbatim>\<open>Variable.invalidate_cache\<close>: \<^verbatim>\<open>self._cache.clear()\<close>.\<close>

definition invalidate_cache :: "variable \<Rightarrow> variable" where
  "invalidate_cache self = self\<lparr>cache := []\<rparr>"

text \<open>
  The assignment \<^verbatim>\<open>variable.name = value\<close> on an initialized variable of the track:
  \<^verbatim>\<open>__setattr__\<close> calls \<^verbatim>\<open>validate_attribute_value\<close>, which validates the name and then
  calls \<^verbatim>\<open>self.track.invalidate_variables_cache()\<close>, and stores the value. The call hands
  the track method no argument; the method is the parameter \<open>invalidate\<close>.
\<close>

definition setattr_name_with ::
  "(track \<Rightarrow> track) \<Rightarrow> track \<Rightarrow> string \<Rightarrow> string \<Rightarrow> error + track" where
  "setattr_name_with invalidate track self_id value =
     (case map_of track self_id of
        None \<Rightarrow> Inl KeyError
      | Some self \<Rightarrow>
          (case validate_name track self value of
             Inl e \<Rightarrow> Inl e
           | Inr _ \<Rightarrow>
               (let track' = invalidate track
                in case map_of track' self_id of
                     None \<Rightarrow> Inr track'
                   | Some self' \<Rightarrow> Inr (AList.update self_id (self'\<lparr>name := value\<rparr>) track'))))"

text \<open>
  Modelled from the spec: \<^verbatim>\<open>Track.invalidate_variables_cache\<close> is not part of the
  sources. The specification requires the derived properties, memoized per variable, to
  be invalidated whenever any variable's name, parent or sort order changes anywhere in
  the same track: the method invalidates the cache of every variable of the track.
\<close>

definition invalidate_variables_cache :: "track \<Rightarrow> track" where
  "invalidate_variables_cache track = map (\<lambda>(i, v). (i, invalidate_cache v)) track"

definition setattr_name :: "track \<Rightarrow> string \<Rightarrow> string \<Rightarrow> error + track" where
  "setattr_name = setattr_name_with invalidate_variables_cache"

text \<open>
  Two unrelated root variables, first with empty caches, then with the caches that
  reading the three properties of both leaves behind.
\<close>

definition two_roots :: track where
  "two_roots = [(''A'', mk_var ''A'' Folder), (''B'', (mk_var ''B'' Text)\<lparr>sort_order := 1\<rparr>)]"

definition two_roots_read :: track where
  "two_roots_read =
     [(''A'', (mk_var ''A'' Folder)\<lparr>cache :=
         [(K_absolute_path, Path [''A'']), (K_relative_path, Path [''A'']),
          (K_tree, Tree (Node ''A'' ''A'' ''Folder'' []))]\<rparr>),
      (''B'', (mk_var ''B'' Text)\<lparr>sort_order := 1, cache :=
         [(K_absolute_path, Path [''B'']), (K_relative_path, Path [''B'']),
          (K_tree, Tree (Node ''B'' ''B'' ''Text'' []))]\<rparr>)]"

definition track_after :: "(error + 'a \<times> track) option \<Rightarrow> track option" where
  "track_after r = (case r of Some (Inr (x, track)) \<Rightarrow> Some track | _ \<Rightarrow> None)"

section \<open>The change CalculateWeightGain\<close>

text \<open>
  Python's \<^verbatim>\<open>-\<close> on document values: numbers subtract (a boolean counts as the integer 0
  or 1, an integer meets a float as a float), anything else raises \<^verbatim>\<open>TypeError\<close>. Floats are
  modelled by the rationals, which is exact wherever the exact difference is itself a
  float, as for 75.0 - 70.0.
\<close>

fun as_number :: "json \<Rightarrow> (int + rat) option" where
  "as_number (JBool b) = Some (Inl (if b then 1 else 0))"
| "as_number (JInt i) = Some (Inl i)"
| "as_number (JFloat x) = Some (Inr x)"
| "as_number j = None"

definition py_sub :: "json \<Rightarrow> json \<Rightarrow> error + json" where
  "py_sub a b =
     (case (as_number a, as_number b) of
        (Some (Inl i), Some (Inl j)) \<Rightarrow> Inr (JInt (i - j))
      | (Some (Inl i), Some (Inr y)) \<Rightarrow> Inr (JFloat (of_int i - y))
      | (Some (Inr x), Some (Inl j)) \<Rightarrow> Inr (JFloat (x - of_int j))
      | (Some (Inr x), Some (Inr y)) \<Rightarrow> Inr (JFloat (x - y))
      | _ \<Rightarrow> Inl TypeError)"

text \<open>
  \<^verbatim>\<open>CalculateWeightGain.__call__\<close>. The periods are the top-level keys other than
  \<^verbatim>\<open>"invariant"\<close>; \<^verbatim>\<open>min\<close> and \<^verbatim>\<open>max\<close> of an empty set raise \<^verbatim>\<open>ValueError\<close>, and strings
  compare lexicographically by code point. The two paths are read from the subject
  variables through the schema's track. \<^verbatim>\<open>nesteddicts.get\<close> and \<^verbatim>\<open>nesteddicts.put\<close> are
  the parameters \<open>get\<close> and \<open>put\<close>.
\<close>

definition CalculateWeightGain_call ::
  "(document \<Rightarrow> string list \<Rightarrow> error + json) \<Rightarrow>
   (document \<Rightarrow> string list \<Rightarrow> json \<Rightarrow> error + document) \<Rightarrow>
   track \<Rightarrow> string \<Rightarrow> string \<Rightarrow> document \<Rightarrow> (error + document) option" where
  "CalculateWeightGain_call get put track weight_var weight_gain_var composite =
     (let periods = filter (\<lambda>k. k \<noteq> ''invariant'') (map fst composite)
      in if periods = [] then Some (Inl ValueError)
         else
           (let earliest = Min (set periods); latest = Max (set periods)
            in Option.bind (absolute_path track weight_var)
                 (\<lambda>r. case r of
                    Inl e \<Rightarrow> Some (Inl e)
                  | Inr (weight_path, track1) \<Rightarrow>
                      (case get composite (earliest # weight_path) of
                         Inl e \<Rightarrow> Some (Inl e)
                       | Inr earliest_weight \<Rightarrow>
                           (case get composite (latest # weight_path) of
                              Inl e \<Rightarrow> Some (Inl e)
                            | Inr latest_weight \<Rightarrow>
                                (case py_sub latest_weight earliest_weight of
                                   Inl e \<Rightarrow> Some (Inl e)
                                 | Inr weight_gain \<Rightarrow>
                                     Option.bind (absolute_path track1 weight_gain_var)
                                       (\<lambda>r'. case r' of
                                          Inl e \<Rightarrow> Some (Inl e)
                                        | Inr (weight_gain_path, track2) \<Rightarrow>
                                            Some (put composite (''invariant'' # weight_gain_path)
                                                    weight_gain))))))))"

text \<open>
  Modelled from the spec: the module \<^verbatim>\<open>nesteddicts\<close> is not part of the sources. The
  specification names it a generic nested-path get/put utility over the nested mappings of
  a composite. \<open>nested_get\<close> follows the keys of the path and fails on a missing key or a
  value that is not a mapping; \<open>nested_put\<close> stores the value under the last key of the
  path, creating the mappings on the way that are absent, and fails on an empty path or
  on a value on the way that is not a mapping.
\<close>

fun nested_get :: "json \<Rightarrow> string list \<Rightarrow> error + json" where
  "nested_get j [] = Inr j"
| "nested_get j (k # ks) =
     (case j of
        JDict d \<Rightarrow> (case map_of d k of None \<Rightarrow> Inl KeyError | Some sub \<Rightarrow> nested_get sub ks)
      | _ \<Rightarrow> Inl KeyError)"

fun nested_put :: "json \<Rightarrow> string list \<Rightarrow> json \<Rightarrow> error + json" where
  "nested_put j [] v = Inl ValueError"
| "nested_put j [k] v =
     (case j of JDict d \<Rightarrow> Inr (JDict (AList.update k v d)) | _ \<Rightarrow> Inl TypeError)"
| "nested_put j (k # ks) v =
     (case j of
        JDict d \<Rightarrow>
          (case nested_put (case map_of d k of None \<Rightarrow> JDict [] | Some sub \<Rightarrow> sub) ks v of
             Inl e \<Rightarrow> Inl e
           | Inr sub' \<Rightarrow> Inr (JDict (AList.update k sub' d)))
      | _ \<Rightarrow> Inl TypeError)"

definition nesteddicts_get :: "document \<Rightarrow> string list \<Rightarrow> error + json" where
  "nesteddicts_get doc path = nested_get (JDict doc) path"

definition nesteddicts_put :: "document \<Rightarrow> string list \<Rightarrow> json \<Rightarrow> error + document" where
  "nesteddicts_put doc path v =
     (case nested_put (JDict doc) path v of
        Inl e \<Rightarrow> Inl e
      | Inr j \<Rightarrow> (case j of JDict doc' \<Rightarrow> Inr doc' | _ \<Rightarrow> Inl TypeError))"

text \<open>
  \<open>mappings_along j path\<close>: every value that is present on the way along \<open>path\<close>,
  before its last name, is a mapping.
\<close>

fun mappings_along :: "json \<Rightarrow> string list \<Rightarrow> bool" where
  "mappings_along j [] = True"
| "mappings_along j (k # ks) =
     (case j of
        JDict d \<Rightarrow> (case map_of d k of None \<Rightarrow> True | Some sub \<Rightarrow> mappings_along sub ks)
      | _ \<Rightarrow> False)"

text \<open>Two paths are unrelated when neither is a prefix of the other.\<close>

definition unrelated :: "string list \<Rightarrow> string list \<Rightarrow> bool" where
  "unrelated p q = (\<not> prefix p q \<and> \<not> prefix q p)"

text \<open>
  The schema of the scenario: the temporal Decimal \<open>weight\<close> and the invariant Decimal
  \<open>weight_gain\<close> that has it as its source.
\<close>

definition vitals_track :: track where
  "vitals_track =
     [(''weight'', mk_var ''weight'' Decimal),
      (''weight_gain'', (mk_var ''weight_gain'' Decimal)\<lparr>sort_order := 1, sources := [''weight'']\<rparr>)]"

section \<open>Equality and hashing of variables\<close>

lemma isinstance_Concrete: "isinstance v (Concrete k) \<longleftrightarrow> data_type v = k"
  by (cases "data_type v"; cases k; simp add: isinstance_def issubclass_def)

text \<open>
  C10. Two variables compare equal exactly when they have the same concrete class and the
  same \<open>var_id\<close>. Equality and the hash do not change when \<open>name\<close>, \<open>sort_order\<close>,
  \<open>sources\<close>, \<open>parent\<close> or the cache of either variable changes, and the hash of a
  variable is the hash of any variable that carries the same \<open>var_id\<close>.
\<close>

theorem Variable_eq_hash_by_class_and_id:
  "(Variable_eq a b \<longleftrightarrow> data_type a = data_type b \<and> var_id a = var_id b)
   \<and> Variable_eq (a\<lparr>name := n, sort_order := so, sources := ss, parent := p, cache := c\<rparr>)
        (b\<lparr>name := n', sort_order := so', sources := ss', parent := p', cache := c'\<rparr>)
      = Variable_eq a b
   \<and> Variable_hash h (a\<lparr>name := n, sort_order := so, sources := ss, parent := p, cache := c\<rparr>)
      = Variable_hash h a
   \<and> Variable_hash h (b\<lparr>var_id := var_id a\<rparr>) = Variable_hash h a"
  by (auto simp add: Variable_eq_def Variable_hash_def isinstance_Concrete)

section \<open>The Binary caster\<close>

lemma of_char_lower_char:
  "(of_char (lower_char c) :: nat) =
     (let n = (of_char c :: nat)
      in if (65 \<le> n \<and> n \<le> 90) \<or> (192 \<le> n \<and> n \<le> 222 \<and> n \<noteq> 215) then n + 32 else n)"
  by (simp add: lower_char_def Let_def)

lemma lower_char_eq_iff:
  assumes "plain_lowercase p"
  shows "lower_char c = p \<longleftrightarrow> same_letter c p"
proof -
  define n m where "n = (of_char c :: nat)" and "m = (of_char p :: nat)"
  have "lower_char c = p \<longleftrightarrow> (of_char (lower_char c) :: nat) = m"
    unfolding m_def by simp
  moreover have "c = p \<longleftrightarrow> n = m"
    unfolding n_def m_def by simp
  moreover have "m < 128" "\<not> (65 \<le> m \<and> m \<le> 90)"
    using assms unfolding m_def plain_lowercase_def by simp_all
  ultimately show ?thesis
    unfolding of_char_lower_char same_letter_def Let_def n_def[symmetric] m_def[symmetric]
    by (auto; arith)
qed

lemma lower_eq_iff:
  "list_all plain_lowercase p \<Longrightarrow> lower s = p \<longleftrightarrow> equals_ignoring_case s p"
proof (induction s arbitrary: p)
  case Nil
  then show ?case
    by (auto simp: lower_def equals_ignoring_case_def)
next
  case (Cons c s)
  then show ?case
    by (cases p) (auto simp: lower_def equals_ignoring_case_def lower_char_eq_iff)
qed

lemma lower_patterns:
  "lower s = ''1'' \<longleftrightarrow> equals_ignoring_case s ''1''"
  "lower s = ''true'' \<longleftrightarrow> equals_ignoring_case s ''true''"
  "lower s = ''0'' \<longleftrightarrow> equals_ignoring_case s ''0''"
  "lower s = ''false'' \<longleftrightarrow> equals_ignoring_case s ''false''"
  by (rule lower_eq_iff, simp add: plain_lowercase_def)+

lemma not_both_patterns:
  "\<not> ((equals_ignoring_case s ''1'' \<or> equals_ignoring_case s ''true'')
      \<and> (equals_ignoring_case s ''0'' \<or> equals_ignoring_case s ''false''))"
  unfolding lower_patterns[symmetric] by auto

text \<open>
  C7, as the code has it. The Binary caster returns absence on \<^verbatim>\<open>None\<close> and on the empty
  string and returns a boolean input unchanged. On a string it returns true exactly on the
  case-insensitive strings "1" and "true", false exactly on the case-insensitive strings
  "0" and "false", and raises \<^verbatim>\<open>ValueError\<close> on every other non-empty string.
\<close>

theorem Binary_cast_cases:
  "Binary_cast RNone = Inr None
   \<and> Binary_cast (RStr '''') = Inr None
   \<and> Binary_cast (RBool b) = Inr (Some b)
   \<and> (Binary_cast (RStr s) = Inr (Some True)
        \<longleftrightarrow> equals_ignoring_case s ''1'' \<or> equals_ignoring_case s ''true'')
   \<and> (Binary_cast (RStr s) = Inr (Some False)
        \<longleftrightarrow> equals_ignoring_case s ''0'' \<or> equals_ignoring_case s ''false'')
   \<and> (Binary_cast (RStr s) = Inl ValueError
        \<longleftrightarrow> s \<noteq> '''' \<and> \<not> equals_ignoring_case s ''1'' \<and> \<not> equals_ignoring_case s ''true''
            \<and> \<not> equals_ignoring_case s ''0'' \<and> \<not> equals_ignoring_case s ''false'')"
proof -
  have empty: "\<not> equals_ignoring_case '''' ''1''" "\<not> equals_ignoring_case '''' ''true''"
    "\<not> equals_ignoring_case '''' ''0''" "\<not> equals_ignoring_case '''' ''false''"
    by (simp_all add: equals_ignoring_case_def)
  show ?thesis
    using not_both_patterns[of s] empty
    by (cases "s = ''''") (auto simp add: Binary_cast_def Let_def lower_patterns)
qed

text \<open>
  The claim as written fails on a boolean input: \<^verbatim>\<open>True\<close> is neither null, nor the empty
  string, nor one of the four strings, and the caster returns it instead of raising.
\<close>

theorem Binary_cast_bool_counterexample:
  "Binary_cast (RBool True) = Inr (Some True)
   \<and> RBool True \<noteq> RNone \<and> RBool True \<noteq> RStr ''''
   \<and> RBool True \<noteq> RStr ''1'' \<and> RBool True \<noteq> RStr ''true''"
  by (simp add: Binary_cast_def)

theorem Binary_cast_cases_witness:
  "Binary_cast (RStr ''TRUE'') = Inr (Some True)
   \<and> Binary_cast (RStr ''False'') = Inr (Some False)
   \<and> Binary_cast (RStr ''yes'') = Inl ValueError"
  using Binary_cast_cases [of True "''TRUE''"] Binary_cast_cases [of True "''False''"]
    Binary_cast_cases [of True "''yes''"]
  by (simp add: equals_ignoring_case_def same_letter_def)

section \<open>Source validation\<close>

lemma incompatible_type_iff:
  "incompatible_type sv v \<longleftrightarrow> \<not> compatible_kinds (data_type v) (data_type sv)"
  by (auto simp add: incompatible_type_def compatible_kinds_def)

lemma verify_each_iff:
  "verify_each (Some up) v S = Inr () \<longleftrightarrow>
     (\<forall>s \<in> set S. \<exists>sv. map_of up s = Some sv \<and> compatible_kinds (data_type v) (data_type sv))"
  by (induction S)
     (auto simp add: verify_source_exists_def verify_source_compatible_def incompatible_type_iff
           split: sum.splits option.splits)

lemma verify_each_error:
  "verify_each (Some up) v S = Inl e \<Longrightarrow> e = ValueError"
  by (induction S)
     (auto simp add: verify_source_exists_def verify_source_compatible_def
           split: sum.splits option.splits if_splits)

text \<open>
  C3. With an upstream track declared, validation of a source list in non-init mode
  succeeds exactly when the variable is not a Folder or the list is empty, every id of the
  list exists upstream, and every source has the variable's kind or is a Folder sourced by
  a List; every failure is a \<^verbatim>\<open>ValueError\<close>.
\<close>

theorem validate_sources_iff:
  "(validate_sources (Some up) v S False = Inr () \<longleftrightarrow>
      (data_type v \<noteq> Folder \<or> S = [])
      \<and> (\<forall>s \<in> set S. map_of up s \<noteq> None)
      \<and> (\<forall>s \<in> set S. \<forall>sv. map_of up s = Some sv \<longrightarrow>
            compatible_kinds (data_type v) (data_type sv)))
   \<and> (validate_sources (Some up) v S False \<noteq> Inr () \<longrightarrow>
        validate_sources (Some up) v S False = Inl ValueError)"
proof -
  have ok: "validate_sources (Some up) v S False = Inr () \<longleftrightarrow>
      (data_type v \<noteq> Folder \<or> S = []) \<and> verify_each (Some up) v S = Inr ()"
    by (cases S) (auto simp add: validate_sources_def check_folder_has_sources_def
          isinstance_Concrete split: sum.splits)
  have err: "validate_sources (Some up) v S False = Inl e \<Longrightarrow> e = ValueError" for e
    by (auto simp add: validate_sources_def check_folder_has_sources_def
          split: sum.splits if_splits dest: verify_each_error)
  have "validate_sources (Some up) v S False = Inl ValueError"
    if "validate_sources (Some up) v S False \<noteq> Inr ()"
    using that err by (cases "validate_sources (Some up) v S False") auto
  then show ?thesis
    unfolding ok verify_each_iff by fastforce
qed

theorem validate_sources_iff_witness:
  "validate_sources (Some [(''f'', mk_var ''f'' Folder), (''t'', mk_var ''t'' Text)])
      (mk_var ''l'' List) [''f''] False = Inr ()
   \<and> validate_sources (Some [(''f'', mk_var ''f'' Folder), (''t'', mk_var ''t'' Text)])
      (mk_var ''l'' List) [''t''] False = Inl ValueError
   \<and> validate_sources (Some [(''f'', mk_var ''f'' Folder), (''t'', mk_var ''t'' Text)])
      (mk_var ''g'' Folder) [''f''] False = Inl ValueError
   \<and> validate_sources (Some [(''f'', mk_var ''f'' Folder), (''t'', mk_var ''t'' Text)])
      (mk_var ''g'' Folder) [] False = Inr ()
   \<and> validate_sources (Some [(''f'', mk_var ''f'' Folder), (''t'', mk_var ''t'' Text)])
      (mk_var ''x'' Text) [''t'', ''missing''] False = Inl ValueError"
  using validate_sources_iff [of "[(''f'', mk_var ''f'' Folder), (''t'', mk_var ''t'' Text)]"
          "mk_var ''l'' List" "[''f'']"]
    validate_sources_iff [of "[(''f'', mk_var ''f'' Folder), (''t'', mk_var ''t'' Text)]"
          "mk_var ''l'' List" "[''t'']"]
    validate_sources_iff [of "[(''f'', mk_var ''f'' Folder), (''t'', mk_var ''t'' Text)]"
          "mk_var ''g'' Folder" "[''f'']"]
    validate_sources_iff [of "[(''f'', mk_var ''f'' Folder), (''t'', mk_var ''t'' Text)]"
          "mk_var ''g'' Folder" "[]"]
    validate_sources_iff [of "[(''f'', mk_var ''f'' Folder), (''t'', mk_var ''t'' Text)]"
          "mk_var ''x'' Text" "[''t'', ''missing'']"]
  by (simp add: mk_var_def compatible_kinds_def)

section \<open>The Date caster\<close>
























section \<open>The document value provider\<close>









section \<open>The NamedList translator\<close>

lemma update_new_key: "map_of r k = None \<Longrightarrow> AList.update k v r = r @ [(k, v)]"
  by (induction r) (auto split: if_splits)

lemma map_of_None_iff: "map_of r k = None \<longleftrightarrow> k \<notin> set (map fst r)"
  by (simp add: map_of_eq_None_iff)

text \<open>
  One source mapping: when every element translates, the run fails exactly on a key that
  is already in the result, and otherwise appends one translated entry per key.
\<close>

lemma process_items_result:
  assumes "\<forall>(key, item) \<in> set items. \<exists>t. translate item vid sid = Inr t"
  shows "if distinct (map fst items) \<and> set (map fst items) \<inter> set (map fst (result self)) = {}
         then \<exists>st. process_items translate vid sid items self = Inr st
                \<and> (\<exists>new. result st = result self @ new
                      \<and> list_all2 (\<lambda>(key, item) (key', t). key' = key \<and> translate item vid sid = Inr t)
                           items new)
         else process_items translate vid sid items self = Inl ValueError"
  using assms
proof (induction items arbitrary: self)
  case Nil
  show ?case by simp
next
  case (Cons a items)
  obtain key item where a: "a = (key, item)" by (cases a)
  from Cons.prems a obtain t where t: "translate item vid sid = Inr t" by auto
  show ?case
  proof (cases "map_of (result self) key = None")
    case False
    then have "key \<in> set (map fst (result self))"
      by (simp add: map_of_None_iff)
    with False a show ?thesis by auto
  next
    case True
    define self' where "self' = self\<lparr>result := AList.update key t (result self), has_result := True\<rparr>"
    have res': "result self' = result self @ [(key, t)]"
      using True by (simp add: self'_def update_new_key)
    have step: "process_items translate vid sid (a # items) self
        = process_items translate vid sid items self'"
      using True t a by (simp add: self'_def)
    have notin: "key \<notin> set (map fst (result self))"
      using True by (simp add: map_of_None_iff)
    have IH: "if distinct (map fst items) \<and> set (map fst items) \<inter> set (map fst (result self')) = {}
         then \<exists>st. process_items translate vid sid items self' = Inr st
                \<and> (\<exists>new. result st = result self' @ new
                      \<and> list_all2 (\<lambda>(key, item) (key', t). key' = key \<and> translate item vid sid = Inr t)
                           items new)
         else process_items translate vid sid items self' = Inl ValueError"
      using Cons.IH[of self'] Cons.prems by simp
    have cond: "(distinct (map fst (a # items))
          \<and> set (map fst (a # items)) \<inter> set (map fst (result self)) = {})
        \<longleftrightarrow> (distinct (map fst items) \<and> set (map fst items) \<inter> set (map fst (result self')) = {})"
      using notin a res' by auto
    show ?thesis
    proof (cases "distinct (map fst items) \<and> set (map fst items) \<inter> set (map fst (result self')) = {}")
      case False
      with IH cond step show ?thesis by simp
    next
      case ok: True
      with IH obtain st new where st: "process_items translate vid sid items self' = Inr st"
        "result st = result self' @ new"
        "list_all2 (\<lambda>(key, item) (key', t). key' = key \<and> translate item vid sid = Inr t) items new"
        by auto
      have "result st = result self @ ((key, t) # new)"
        using st(2) res' by simp
      moreover have "list_all2 (\<lambda>(key, item) (key', t). key' = key \<and> translate item vid sid = Inr t)
          (a # items) ((key, t) # new)"
        using st(3) a t by simp
      ultimately show ?thesis
        using ok cond step st(1) by (metis (no_types, lifting))
    qed
  qed
qed

lemma translated_keys:
  "list_all2 (\<lambda>(key, item) (key', t). key' = key \<and> Q item t) items new
   \<Longrightarrow> map fst new = map fst items"
  by (induction items new rule: list_all2_induct) auto

lemma contributed_Cons:
  "contributed ((items, sid) # pairs)
     = map (\<lambda>(key, item). (key, item, sid)) items @ contributed pairs"
  by (simp add: contributed_def)

lemma contributed_keys_Cons:
  "map fst (contributed ((items, sid) # pairs)) = map fst items @ map fst (contributed pairs)"
  by (simp add: contributed_Cons case_prod_unfold comp_def)

text \<open>The whole run, from any state whose result has distinct keys.\<close>

lemma accumulate_result:
  assumes "\<forall>(key, item, sid) \<in> set (contributed pairs). \<exists>t. translate item vid sid = Inr t"
  shows "if distinct (map fst (contributed pairs))
            \<and> set (map fst (contributed pairs)) \<inter> set (map fst (result self)) = {}
         then \<exists>st. accumulate translate vid (map (\<lambda>(items, sid). (Some items, sid)) pairs) self = Inr st
                \<and> (\<exists>new. result st = result self @ new
                      \<and> list_all2 (\<lambda>(key, item, sid) (key', t). key' = key \<and> translate item vid sid = Inr t)
                           (contributed pairs) new)
         else accumulate translate vid (map (\<lambda>(items, sid). (Some items, sid)) pairs) self
                = Inl ValueError"
  using assms
proof (induction pairs arbitrary: self)
  case Nil
  show ?case by (simp add: contributed_def)
next
  case (Cons a pairs)
  obtain items sid where a: "a = (items, sid)" by (cases a)
  let ?P = "\<lambda>(key, item, sid) (key', t). key' = key \<and> translate item vid sid = Inr t"
  let ?P1 = "\<lambda>(key, item) (key', t). key' = key \<and> translate item vid sid = Inr t"
  have items_ok: "\<forall>(key, item) \<in> set items. \<exists>t. translate item vid sid = Inr t"
    using Cons.prems unfolding a contributed_Cons by fastforce
  have rest_ok: "\<forall>(key, item, sid) \<in> set (contributed pairs). \<exists>t. translate item vid sid = Inr t"
    using Cons.prems unfolding a contributed_Cons by auto
  have run: "accumulate translate vid (map (\<lambda>(items, sid). (Some items, sid)) (a # pairs)) self
      = (case process_items translate vid sid items self of
           Inl e \<Rightarrow> Inl e
         | Inr self' \<Rightarrow> accumulate translate vid (map (\<lambda>(items, sid). (Some items, sid)) pairs) self')"
    by (simp add: a process_source_value_def)
  have first: "if distinct (map fst items) \<and> set (map fst items) \<inter> set (map fst (result self)) = {}
      then \<exists>st. process_items translate vid sid items self = Inr st
             \<and> (\<exists>new. result st = result self @ new \<and> list_all2 ?P1 items new)
      else process_items translate vid sid items self = Inl ValueError"
    using items_ok by (rule process_items_result)
  show ?case
  proof (cases "distinct (map fst items) \<and> set (map fst items) \<inter> set (map fst (result self)) = {}")
    case False
    with first have "process_items translate vid sid items self = Inl ValueError" by simp
    moreover have "\<not> (distinct (map fst (contributed (a # pairs)))
        \<and> set (map fst (contributed (a # pairs))) \<inter> set (map fst (result self)) = {})"
      using False unfolding a contributed_keys_Cons by auto
    ultimately show ?thesis using run by simp
  next
    case True
    with first obtain st1 new1 where st1: "process_items translate vid sid items self = Inr st1"
      "result st1 = result self @ new1" "list_all2 ?P1 items new1"
      by auto
    have keys1: "map fst new1 = map fst items"
      using st1(3) by (rule translated_keys)
    have run': "accumulate translate vid (map (\<lambda>(items, sid). (Some items, sid)) (a # pairs)) self
        = accumulate translate vid (map (\<lambda>(items, sid). (Some items, sid)) pairs) st1"
      using run st1(1) by simp
    have cond: "(distinct (map fst (contributed (a # pairs)))
          \<and> set (map fst (contributed (a # pairs))) \<inter> set (map fst (result self)) = {})
        \<longleftrightarrow> (distinct (map fst (contributed pairs))
          \<and> set (map fst (contributed pairs)) \<inter> set (map fst (result st1)) = {})"
      using True unfolding a contributed_keys_Cons st1(2) by (auto simp: keys1)
    have IH: "if distinct (map fst (contributed pairs))
          \<and> set (map fst (contributed pairs)) \<inter> set (map fst (result st1)) = {}
        then \<exists>st. accumulate translate vid (map (\<lambda>(items, sid). (Some items, sid)) pairs) st1 = Inr st
               \<and> (\<exists>new. result st = result st1 @ new \<and> list_all2 ?P (contributed pairs) new)
        else accumulate translate vid (map (\<lambda>(items, sid). (Some items, sid)) pairs) st1
               = Inl ValueError"
      using rest_ok by (rule Cons.IH)
    show ?thesis
    proof (cases "distinct (map fst (contributed pairs))
          \<and> set (map fst (contributed pairs)) \<inter> set (map fst (result st1)) = {}")
      case False
      with IH cond run' show ?thesis by simp
    next
      case ok: True
      with IH obtain st new where st:
        "accumulate translate vid (map (\<lambda>(items, sid). (Some items, sid)) pairs) st1 = Inr st"
        "result st = result st1 @ new" "list_all2 ?P (contributed pairs) new"
        by auto
      have "list_all2 ?P (map (\<lambda>(key, item). (key, item, sid)) items) new1"
        using st1(3) by (simp add: list_all2_map1 case_prod_unfold)
      then have "list_all2 ?P (contributed (a # pairs)) (new1 @ new)"
        unfolding a contributed_Cons using st(3) by (rule list_all2_appendI)
      moreover have "result st = result self @ (new1 @ new)"
        using st(2) st1(2) by simp
      ultimately show ?thesis
        using ok cond run' st(1) by (metis (no_types, lifting))
    qed
  qed
qed

text \<open>
  C6. When every contributed element translates, accumulating over the source mappings of
  a NamedList variable raises \<^verbatim>\<open>ValueError\<close> (the duplicate-key error) exactly when two
  contributed elements, of two sources or of one, carry the same key; when no key
  collides the result holds exactly one translated entry per contributed key, in order.
\<close>

theorem accumulate_duplicate_keys:
  assumes "\<forall>(key, item, sid) \<in> set (contributed pairs). \<exists>t. translate item vid sid = Inr t"
  shows "(accumulate translate vid (map (\<lambda>(items, sid). (Some items, sid)) pairs) initial_translator
            = Inl ValueError
          \<longleftrightarrow> \<not> distinct (map fst (contributed pairs)))
       \<and> (distinct (map fst (contributed pairs)) \<longrightarrow>
            (\<exists>st. accumulate translate vid (map (\<lambda>(items, sid). (Some items, sid)) pairs)
                     initial_translator = Inr st
                 \<and> list_all2 (\<lambda>(key, item, sid) (key', t). key' = key \<and> translate item vid sid = Inr t)
                      (contributed pairs) (result st)))"
  using assms accumulate_result[of pairs translate vid initial_translator]
  by (auto simp add: initial_translator_def split: if_splits)

theorem accumulate_duplicate_keys_witness:
  "accumulate (\<lambda>item vid sid. Inr item) ''n''
      [(Some [(''a'', JInt 1)], ''s1''), (Some [(''a'', JInt 2)], ''s2'')] initial_translator
     = Inl ValueError
   \<and> result (projr (accumulate (\<lambda>item vid sid. Inr item) ''n''
      [(Some [(''a'', JInt 1)], ''s1''), (Some [(''b'', JInt 2)], ''s2'')] initial_translator))
     = [(''a'', JInt 1), (''b'', JInt 2)]"
proof -
  have "accumulate (\<lambda>item vid sid. Inr item) ''n''
      [(Some [(''a'', JInt 1)], ''s1''), (Some [(''a'', JInt 2)], ''s2'')] initial_translator
     = Inl ValueError"
    using accumulate_duplicate_keys [of "[([(''a'', JInt 1)], ''s1''), ([(''a'', JInt 2)], ''s2'')]"
        "\<lambda>item vid sid. Inr item" "''n''"]
    by (simp add: contributed_def)
  moreover have "result (projr (accumulate (\<lambda>item vid sid. Inr item) ''n''
      [(Some [(''a'', JInt 1)], ''s1''), (Some [(''b'', JInt 2)], ''s2'')] initial_translator))
     = [(''a'', JInt 1), (''b'', JInt 2)]"
    using accumulate_duplicate_keys [of "[([(''a'', JInt 1)], ''s1''), ([(''b'', JInt 2)], ''s2'')]"
        "\<lambda>item vid sid. Inr item" "''n''"]
    by (auto simp add: contributed_def list_all2_Cons1)
  ultimately show ?thesis by simp
qed

section \<open>Inserting a sibling\<close>

lemma update_present_key:
  "distinct (map fst t) \<Longrightarrow> map_of t k = Some w \<Longrightarrow>
   AList.update k v t = map (\<lambda>(i, x). (i, if i = k then v else x)) t"
proof (induction t)
  case Nil
  then show ?case by simp
next
  case (Cons a t)
  obtain i x where a: "a = (i, x)" by (cases a)
  show ?case
  proof (cases "i = k")
    case True
    with Cons.prems a have "k \<notin> fst ` set t" by auto
    then have "map (\<lambda>(i, x). (i, if i = k then v else x)) t = t"
      by (induction t) auto
    with True a show ?thesis by simp
  next
    case False
    with Cons a show ?thesis by simp
  qed
qed

text \<open>
  The loop over distinct sibling ids that are keys of the track changes exactly the
  entries of the siblings other than \<open>self\<close>, each by its own \<open>diff\<close>.
\<close>

lemma shift_siblings_map:
  assumes "distinct (map fst t)" "distinct sibs" "set sibs \<subseteq> fst ` set t"
  shows "shift_siblings sid old new sibs t
      = Inr (map (\<lambda>(i, w). (i, if i \<in> set sibs \<and> i \<noteq> sid
                then w\<lparr>sort_order := sort_order w
                       + ((if sort_order w \<ge> new then 1 else 0) + (if sort_order w \<ge> old then - 1 else 0))\<rparr>
                else w)) t)"
  using assms
proof (induction sibs arbitrary: t)
  case Nil
  show ?case by (simp add: case_prod_unfold)
next
  case (Cons s rest)
  let ?bump = "\<lambda>w. w\<lparr>sort_order := sort_order w
     + ((if sort_order w \<ge> new then 1 else 0) + (if sort_order w \<ge> old then - 1 else 0))\<rparr>"
  show ?case
  proof (cases "s = sid")
    case True
    have "shift_siblings sid old new (s # rest) t = shift_siblings sid old new rest t"
      using True by simp
    also have "\<dots> = Inr (map (\<lambda>(i, w). (i, if i \<in> set rest \<and> i \<noteq> sid then ?bump w else w)) t)"
      using Cons.IH[of t] Cons.prems by simp
    also have "map (\<lambda>(i, w). (i, if i \<in> set rest \<and> i \<noteq> sid then ?bump w else w)) t
        = map (\<lambda>(i, w). (i, if i \<in> set (s # rest) \<and> i \<noteq> sid then ?bump w else w)) t"
      using True by (intro map_cong) auto
    finally show ?thesis .
  next
    case False
    from Cons.prems obtain sv where sv: "map_of t s = Some sv"
      by (auto simp: map_of_eq_None_iff[symmetric])
    define t1 where "t1 = AList.update s (?bump sv) t"
    have t1: "t1 = map (\<lambda>(i, x). (i, if i = s then ?bump sv else x)) t"
      unfolding t1_def using Cons.prems(1) sv by (rule update_present_key)
    have keys1: "map fst t1 = map fst t"
      unfolding t1 by (simp add: case_prod_unfold comp_def)
    have keyset: "fst ` set t1 = fst ` set t"
      using keys1 by (metis set_map)
    have same: "x = sv" if "(s, x) \<in> set t" for x
      using that Cons.prems(1) sv by simp
    have "shift_siblings sid old new (s # rest) t = shift_siblings sid old new rest t1"
      using False sv by (simp add: t1_def Let_def)
    also have "\<dots> = Inr (map (\<lambda>(i, w). (i, if i \<in> set rest \<and> i \<noteq> sid then ?bump w else w)) t1)"
      using Cons.IH[of t1] Cons.prems keys1 keyset by simp
    also have "map (\<lambda>(i, w). (i, if i \<in> set rest \<and> i \<noteq> sid then ?bump w else w)) t1
        = map (\<lambda>(i, w). (i, if i \<in> set (s # rest) \<and> i \<noteq> sid then ?bump w else w)) t"
      unfolding t1 map_map using Cons.prems(2) False same
      by (intro map_cong) (auto simp: case_prod_unfold)
    finally show ?thesis .
  qed
qed

lemma track_wf_ids: "track_wf t \<Longrightarrow> map var_id (map snd t) = map fst t"
  unfolding track_wf_def by (induction t) auto

lemma track_wf_entry: "track_wf t \<Longrightarrow> (i, w) \<in> set t \<Longrightarrow> var_id w = i"
  unfolding track_wf_def by (auto simp: list_all_iff)

lemma track_wf_unique:
  assumes "track_wf t" "(i, w) \<in> set t" "(i', w') \<in> set t" "var_id w' = var_id w"
  shows "w' = w"
proof -
  have "i' = i"
    using assms track_wf_entry by metis
  moreover have "distinct (map fst t)"
    using assms(1) by (simp add: track_wf_def)
  ultimately show ?thesis
    using assms(2,3) by (metis eq_key_imp_eq_value)
qed

lemma siblings_wf:
  assumes "track_wf t" "parent_present t self"
  shows "siblings t self = Inr (map var_id (filter (\<lambda>w. parent w = parent self) (map snd t)))"
proof (cases "parent self")
  case None
  then show ?thesis by (simp add: siblings_def roots_def)
next
  case (Some p)
  with assms(2) obtain pv where pv: "map_of t p = Some pv"
    by (auto simp: parent_present_def)
  then have "var_id pv = p"
    using assms(1) track_wf_entry map_of_SomeD by metis
  with Some pv show ?thesis
    by (simp add: siblings_def children_def)
qed

lemma shifted_orders:
  assumes "k \<le> n"
  shows "mset (int k # map (\<lambda>x. if int k \<le> x then x + 1 else x) (map int [0..<n]))
       = mset (map int [0..<Suc n])"
proof -
  have "[0..<k + (n - k)] = [0..<k] @ [k..<k + (n - k)]"
    by (rule upt_add_eq_append) simp
  then have split: "[0..<n] = [0..<k] @ [k..<n]"
    using assms by simp
  have low: "map (\<lambda>x. if int k \<le> x then x + 1 else x) (map int [0..<k]) = map int [0..<k]"
    by (intro map_idI) auto
  have high: "map (\<lambda>x. if int k \<le> x then x + 1 else x) (map int [k..<n]) = map int [Suc k..<Suc n]"
    unfolding map_Suc_upt[symmetric] map_map by (intro map_cong) auto
  have "[0..<k + (Suc n - k)] = [0..<k] @ [k..<k + (Suc n - k)]"
    by (rule upt_add_eq_append) simp
  moreover have "[k..<Suc n] = k # [Suc k..<Suc n]"
    using assms by (intro upt_conv_Cons) simp
  ultimately have whole: "[0..<Suc n] = [0..<k] @ k # [Suc k..<Suc n]"
    using assms by simp
  show ?thesis
    unfolding whole unfolding split map_append low high by simp
qed

lemma shifted_orders_mset:
  assumes "mset xs = mset (map int [0..<n])" "0 \<le> k" "k \<le> int n"
  shows "mset (k # map (\<lambda>x. if k \<le> x then x + 1 else x) xs) = mset (map int [0..<Suc n])"
proof -
  have "image_mset (\<lambda>x. if k \<le> x then x + 1 else x) (mset xs)
      = image_mset (\<lambda>x. if k \<le> x then x + 1 else x) (mset (map int [0..<n]))"
    using assms(1) by simp
  then have same: "mset (map (\<lambda>x. if k \<le> x then x + 1 else x) xs)
      = mset (map (\<lambda>x. if k \<le> x then x + 1 else x) (map int [0..<n]))"
    unfolding mset_map .
  have k: "int (nat k) = k" "nat k \<le> n"
    using assms(2,3) by auto
  have "mset (k # map (\<lambda>x. if k \<le> x then x + 1 else x) (map int [0..<n]))
      = mset (map int [0..<Suc n])"
    using shifted_orders[OF k(2)] unfolding k(1) .
  then show ?thesis
    using same by simp
qed

text \<open>
  C4. Let the existing siblings of \<open>self\<close> (the other variables with its parent) carry
  the sort orders \<open>0..n-1\<close>. Then \<open>update_sort_order\<close> with no old position and the new
  position \<open>k\<close> returns the track in which exactly the existing siblings with
  \<open>sort_order \<ge> k\<close> have their sort order raised by one and nothing else is changed;
  for \<open>0 \<le> k \<le> n\<close> the sort orders of the siblings together with \<open>k\<close> are then
  exactly \<open>0..n\<close>, each once.
\<close>

theorem update_sort_order_insert:
  assumes "track_wf t" "parent_present t self"
    and "mset (map sort_order (existing_siblings t self)) = mset (map int [0..<n])"
  shows "\<exists>t'. update_sort_order t self None (Some k) = Inr t'
     \<and> t' = map (\<lambda>(i, w). (i, if parent w = parent self \<and> var_id w \<noteq> var_id self \<and> k \<le> sort_order w
                               then w\<lparr>sort_order := sort_order w + 1\<rparr> else w)) t
     \<and> (0 \<le> k \<and> k \<le> int n \<longrightarrow>
          mset (k # map sort_order (existing_siblings t' self)) = mset (map int [0..<Suc n]))"
proof -
  define sibs where "sibs = map var_id (filter (\<lambda>w. parent w = parent self) (map snd t))"
  define old where "old = int (length sibs) + 1"
  define shift where "shift = (\<lambda>w :: variable. if parent w = parent self \<and> var_id w \<noteq> var_id self \<and> k \<le> sort_order w
       then w\<lparr>sort_order := sort_order w + 1\<rparr> else w)"
  define t' where "t' = map (\<lambda>(i, w). (i, shift w)) t"
  have dist: "distinct (map fst t)"
    using assms(1) by (simp add: track_wf_def)
  have sibs_eq: "siblings t self = Inr sibs"
    unfolding sibs_def using assms(1,2) by (rule siblings_wf)
  have "distinct (map var_id (map snd t))"
    unfolding track_wf_ids[OF assms(1)] by (rule dist)
  then have dsibs: "distinct sibs"
    unfolding sibs_def by (rule distinct_map_filter)
  have "set sibs \<subseteq> set (map var_id (map snd t))"
    unfolding sibs_def by auto
  then have sub: "set sibs \<subseteq> fst ` set t"
    unfolding track_wf_ids[OF assms(1)] by simp
  have len: "length (existing_siblings t self) = n"
    using assms(3) by (metis length_map length_upt mset_eq_length minus_nat.diff_0)
  have "length (existing_siblings t self) \<le> length sibs"
  proof -
    have "existing_siblings t self
        = filter (\<lambda>w. var_id w \<noteq> var_id self) (filter (\<lambda>w. parent w = parent self) (map snd t))"
      by (simp add: existing_siblings_def conj_commute)
    then have "length (existing_siblings t self)
        \<le> length (filter (\<lambda>w. parent w = parent self) (map snd t))"
      by (simp only: length_filter_le)
    also have "\<dots> = length sibs"
      unfolding sibs_def by (simp only: length_map)
    finally show ?thesis .
  qed
  then have n_le: "int n < old"
    unfolding old_def len by simp
  have small: "sort_order w < old" if "w \<in> set (existing_siblings t self)" for w
  proof -
    have "sort_order w \<in> set (map sort_order (existing_siblings t self))"
      using that by simp
    then have "sort_order w \<in> set (map int [0..<n])"
      using assms(3) by (metis set_mset_mset)
    then show ?thesis
      using n_le by auto
  qed
  have member: "i \<in> set sibs \<and> i \<noteq> var_id self
      \<longleftrightarrow> parent w = parent self \<and> var_id w \<noteq> var_id self" if "(i, w) \<in> set t" for i w
  proof -
    have id: "var_id w = i"
      using assms(1) that by (rule track_wf_entry)
    have "parent w = parent self" if "i \<in> set sibs"
    proof -
      from that obtain w' where w': "w' \<in> snd ` set t" "parent w' = parent self" "var_id w' = i"
        unfolding sibs_def by auto
      then obtain i' where "(i', w') \<in> set t" by force
      with w' id \<open>(i, w) \<in> set t\<close> have "w' = w"
        using track_wf_unique[OF assms(1)] by metis
      with w' show ?thesis by simp
    qed
    moreover have "i \<in> set sibs" if "parent w = parent self"
      unfolding sibs_def using that id \<open>(i, w) \<in> set t\<close> by force
    ultimately show ?thesis using id by auto
  qed
  have run: "update_sort_order t self None (Some k)
      = Inr (map (\<lambda>(i, w). (i, if i \<in> set sibs \<and> i \<noteq> var_id self
                then w\<lparr>sort_order := sort_order w
                       + ((if sort_order w \<ge> k then 1 else 0) + (if sort_order w \<ge> old then - 1 else 0))\<rparr>
                else w)) t)"
    unfolding update_sort_order_def sibs_eq old_def
    using shift_siblings_map[OF dist dsibs sub] by simp
  have "map (\<lambda>(i, w). (i, if i \<in> set sibs \<and> i \<noteq> var_id self
                then w\<lparr>sort_order := sort_order w
                       + ((if sort_order w \<ge> k then 1 else 0) + (if sort_order w \<ge> old then - 1 else 0))\<rparr>
                else w)) t = t'"
    unfolding t'_def
  proof (intro map_cong refl)
    fix e assume e: "e \<in> set t"
    obtain i w where iw: "e = (i, w)" by (cases e)
    show "(case e of (i, w) \<Rightarrow> (i, if i \<in> set sibs \<and> i \<noteq> var_id self
                then w\<lparr>sort_order := sort_order w
                       + ((if sort_order w \<ge> k then 1 else 0) + (if sort_order w \<ge> old then - 1 else 0))\<rparr>
                else w)) = (case e of (i, w) \<Rightarrow> (i, shift w))"
    proof (cases "parent w = parent self \<and> var_id w \<noteq> var_id self")
      case True
      then have "w \<in> set (existing_siblings t self)"
        using e iw by (force simp: existing_siblings_def)
      then have "\<not> old \<le> sort_order w"
        using small by force
      with True member[of i w] e iw show ?thesis
        by (simp add: shift_def)
    next
      case False
      with member[of i w] e iw show ?thesis
        by (auto simp add: shift_def)
    qed
  qed
  with run have result: "update_sort_order t self None (Some k) = Inr t'"
    by simp
  have keep: "parent (shift w) = parent w" "var_id (shift w) = var_id w" for w
    by (simp_all add: shift_def)
  have "existing_siblings t' self = map shift (existing_siblings t self)"
    unfolding existing_siblings_def t'_def
    by (simp add: filter_map comp_def case_prod_unfold keep)
  moreover have "sort_order (shift w) = (if k \<le> sort_order w then sort_order w + 1 else sort_order w)"
    if "w \<in> set (existing_siblings t self)" for w
    using that by (auto simp: shift_def existing_siblings_def)
  ultimately have orders: "map sort_order (existing_siblings t' self)
      = map (\<lambda>x. if k \<le> x then x + 1 else x) (map sort_order (existing_siblings t self))"
    by (simp add: comp_def)
  have "mset (k # map sort_order (existing_siblings t' self)) = mset (map int [0..<Suc n])"
    if "0 \<le> k" "k \<le> int n"
    unfolding orders using assms(3) that by (rule shifted_orders_mset)
  with result show ?thesis
    unfolding t'_def shift_def by blast
qed

theorem update_sort_order_insert_witness:
  "update_sort_order
      [(''a'', mk_var ''a'' Folder),
       (''b'', (mk_var ''b'' Text)\<lparr>sort_order := 1\<rparr>),
       (''c'', (mk_var ''c'' Text)\<lparr>sort_order := 2\<rparr>),
       (''x'', (mk_var ''x'' Text)\<lparr>parent := Some ''a''\<rparr>)]
      ((mk_var ''d'' Text)\<lparr>sort_order := 1\<rparr>) None (Some 1)
     = Inr [(''a'', mk_var ''a'' Folder),
            (''b'', (mk_var ''b'' Text)\<lparr>sort_order := 2\<rparr>),
            (''c'', (mk_var ''c'' Text)\<lparr>sort_order := 3\<rparr>),
            (''x'', (mk_var ''x'' Text)\<lparr>parent := Some ''a''\<rparr>)]
   \<and> mset [1, 0, 2, 3 :: int] = mset (map int [0..<Suc 3])"
proof -
  define t where "t = [(''a'', mk_var ''a'' Folder),
       (''b'', (mk_var ''b'' Text)\<lparr>sort_order := 1\<rparr>),
       (''c'', (mk_var ''c'' Text)\<lparr>sort_order := 2\<rparr>),
       (''x'', (mk_var ''x'' Text)\<lparr>parent := Some ''a''\<rparr>)]"
  define d where "d = (mk_var ''d'' Text)\<lparr>sort_order := 1\<rparr>"
  have wf: "track_wf t"
    by (simp add: track_wf_def t_def mk_var_def)
  have pp: "parent_present t d"
    by (simp add: parent_present_def d_def mk_var_def)
  have orders: "mset (map sort_order (existing_siblings t d)) = mset (map int [0..<3])"
    by (simp add: existing_siblings_def t_def d_def mk_var_def upt_rec)
  from update_sort_order_insert [OF wf pp orders, of 1]
  obtain t' where t': "update_sort_order t d None (Some 1) = Inr t'"
    "t' = map (\<lambda>(i, w). (i, if parent w = parent d \<and> var_id w \<noteq> var_id d \<and> 1 \<le> sort_order w
                               then w\<lparr>sort_order := sort_order w + 1\<rparr> else w)) t"
    "mset (1 # map sort_order (existing_siblings t' d)) = mset (map int [0..<Suc 3])"
    by auto
  have "t' = [(''a'', mk_var ''a'' Folder),
            (''b'', (mk_var ''b'' Text)\<lparr>sort_order := 2\<rparr>),
            (''c'', (mk_var ''c'' Text)\<lparr>sort_order := 3\<rparr>),
            (''x'', (mk_var ''x'' Text)\<lparr>parent := Some ''a''\<rparr>)]"
    unfolding t'(2) by (simp add: t_def d_def mk_var_def)
  moreover from this t'(3) have "mset [1, 0, 2, 3 :: int] = mset (map int [0..<Suc 3])"
    by (simp add: existing_siblings_def d_def mk_var_def)
  ultimately show ?thesis
    using t'(1) unfolding t_def d_def by simp
qed

section \<open>Ancestor check\<close>

text \<open>
  C1 at a concrete track. The parent chain of \<open>C\<close> reaches \<open>V\<close> through the folder
  \<open>F\<close> and the List \<open>L\<close>, so the list lies strictly between \<open>C\<close> and \<open>V\<close>, two levels
  above \<open>C\<close>. With \<open>stop_at_list\<close> the check still answers true for \<open>C\<close>, while it
  answers false for \<open>F\<close>, whose immediate parent is the list.
\<close>

theorem check_ancestor_crosses_list:
  "check_ancestor nested_track (mk_var ''V'' Folder) ''C'' True = Some (Inr True)
   \<and> check_ancestor nested_track (mk_var ''V'' Folder) ''F'' True = Some (Inr False)
   \<and> map_option parent (map_of nested_track ''C'') = Some (Some ''F'')
   \<and> map_option parent (map_of nested_track ''F'') = Some (Some ''L'')
   \<and> map_option parent (map_of nested_track ''L'') = Some (Some ''V'')
   \<and> map_option (\<lambda>v. isinstance v GenericList) (map_of nested_track ''L'') = Some True"
  by (simp add: check_ancestor.simps nested_track_def mk_var_def isinstance_def issubclass_def)

section \<open>Renaming and the memoized properties\<close>

text \<open>
  Reading the absolute path, the relative path and the tree of both roots of
  \<open>two_roots\<close> fills the caches as \<open>two_roots_read\<close> has them.
\<close>

lemma two_roots_read_reached:
  "Option.bind (track_after (absolute_path two_roots ''A'')) (\<lambda>t1.
   Option.bind (track_after (relative_path t1 ''A'')) (\<lambda>t2.
   Option.bind (track_after (tree_of 1 t2 ''A'')) (\<lambda>t3.
   Option.bind (track_after (absolute_path t3 ''B'')) (\<lambda>t4.
   Option.bind (track_after (relative_path t4 ''B'')) (\<lambda>t5.
   track_after (tree_of 1 t5 ''B''))))))
   = Some two_roots_read"
  by (simp add: absolute_path.simps relative_path.simps track_after_def two_roots_def
        two_roots_read_def mk_var_def memo_def children_def Let_def)

lemma map_of_invalidate:
  "map_of (invalidate_variables_cache t) j = map_option invalidate_cache (map_of t j)"
  by (induction t) (auto simp: invalidate_variables_cache_def)

lemma keys_invalidate: "map fst (invalidate_variables_cache t) = map fst t"
  by (simp add: invalidate_variables_cache_def case_prod_unfold comp_def)

lemma keys_update_present: "map_of t k = Some w \<Longrightarrow> map fst (AList.update k v t) = map fst t"
  by (induction t) (auto split: if_splits)

lemma cleared_invalidate: "list_all (\<lambda>(j, w). cache w = []) (invalidate_variables_cache t)"
  by (induction t) (auto simp: invalidate_variables_cache_def invalidate_cache_def)

lemma cleared_update:
  "list_all (\<lambda>(j, w). cache w = []) t \<Longrightarrow> cache v = [] \<Longrightarrow>
   list_all (\<lambda>(j, w). cache w = []) (AList.update k v t)"
  by (induction t) auto

text \<open>
  C2, as the code has it. When assigning a name to the variable \<open>i\<close> succeeds, the new
  track has the same ids, the cache of every variable of the track is empty, the variable
  \<open>i\<close> carries the new name, and every other attribute of every variable is unchanged.
\<close>

theorem setattr_name_clears_every_cache:
  assumes "setattr_name t i n = Inr t'"
  shows "map fst t' = map fst t
       \<and> list_all (\<lambda>(j, w). cache w = []) t'
       \<and> (\<forall>j. map_of t' j
              = map_option (\<lambda>w. (if j = i then w\<lparr>name := n\<rparr> else w)\<lparr>cache := []\<rparr>) (map_of t j))"
proof -
  from assms obtain self where self: "map_of t i = Some self"
    by (auto simp: setattr_name_def setattr_name_with_def split: option.splits)
  define t1 where "t1 = invalidate_variables_cache t"
  have self1: "map_of t1 i = Some (invalidate_cache self)"
    unfolding t1_def by (simp add: map_of_invalidate self)
  have t': "t' = AList.update i ((invalidate_cache self)\<lparr>name := n\<rparr>) t1"
    using assms self self1
    by (auto simp: setattr_name_def setattr_name_with_def Let_def t1_def split: sum.splits)
  have "map fst t' = map fst t"
    unfolding t' using keys_update_present[OF self1] by (simp add: t1_def keys_invalidate)
  moreover have "list_all (\<lambda>(j, w). cache w = []) t'"
    unfolding t' t1_def
    by (intro cleared_update cleared_invalidate) (simp add: invalidate_cache_def)
  moreover have "map_of t' j
      = map_option (\<lambda>w. (if j = i then w\<lparr>name := n\<rparr> else w)\<lparr>cache := []\<rparr>) (map_of t j)" for j
    unfolding t' t1_def
    by (cases "map_of t j")
       (auto simp: update_conv' map_of_invalidate self invalidate_cache_def)
  ultimately show ?thesis by blast
qed

theorem setattr_name_clears_every_cache_witness:
  "setattr_name two_roots_read ''A'' ''A2''
     = Inr [(''A'', (mk_var ''A'' Folder)\<lparr>name := ''A2''\<rparr>),
            (''B'', (mk_var ''B'' Text)\<lparr>sort_order := 1\<rparr>)]
   \<and> list_all (\<lambda>(j, w). cache w = [])
        [(''A'', (mk_var ''A'' Folder)\<lparr>name := ''A2''\<rparr>),
         (''B'', (mk_var ''B'' Text)\<lparr>sort_order := 1\<rparr>)]"
proof -
  have run: "setattr_name two_roots_read ''A'' ''A2''
     = Inr [(''A'', (mk_var ''A'' Folder)\<lparr>name := ''A2''\<rparr>),
            (''B'', (mk_var ''B'' Text)\<lparr>sort_order := 1\<rparr>)]"
    by (simp add: setattr_name_def setattr_name_with_def validate_name_def siblings_def roots_def
          invalidate_variables_cache_def invalidate_cache_def two_roots_read_def mk_var_def)
  from setattr_name_clears_every_cache [OF run] run show ?thesis by simp
qed

text \<open>
  The claim as written fails at \<open>two_roots_read\<close>: \<open>B\<close> is a root, neither \<open>A\<close> nor
  a descendant of it, its three properties are cached, and renaming \<open>A\<close> leaves its
  cache empty.
\<close>

theorem setattr_name_sibling_counterexample:
  "map_option parent (map_of two_roots_read ''B'') = Some None
   \<and> map_option cache (map_of two_roots_read ''B'')
       = Some [(K_absolute_path, Path [''B'']), (K_relative_path, Path [''B'']),
               (K_tree, Tree (Node ''B'' ''B'' ''Text'' []))]
   \<and> setattr_name two_roots_read ''A'' ''A2''
       = Inr [(''A'', (mk_var ''A'' Folder)\<lparr>name := ''A2''\<rparr>),
              (''B'', (mk_var ''B'' Text)\<lparr>sort_order := 1\<rparr>)]
   \<and> map_option cache (map_of [(''A'', (mk_var ''A'' Folder)\<lparr>name := ''A2''\<rparr>),
              (''B'', (mk_var ''B'' Text)\<lparr>sort_order := 1\<rparr>)] ''B'') = Some []"
  by (simp add: setattr_name_def setattr_name_with_def validate_name_def siblings_def roots_def
        invalidate_variables_cache_def invalidate_cache_def two_roots_read_def mk_var_def)

text \<open>
  The same holds for whatever the track method does. Both assignments call it on the same
  track before anything is stored, so no method makes renaming \<open>A\<close> clear the cache of
  \<open>A\<close> and keep that of \<open>B\<close>, and renaming \<open>B\<close> clear the cache of \<open>B\<close> and keep
  that of \<open>A\<close>.
\<close>

lemma no_method_spares_the_sibling:
  "\<not> (\<exists>invalidate tA tB.
        setattr_name_with invalidate two_roots_read ''A'' ''A2'' = Inr tA
      \<and> setattr_name_with invalidate two_roots_read ''B'' ''B2'' = Inr tB
      \<and> map_option cache (map_of tA ''A'') = Some []
      \<and> map_option cache (map_of tA ''B'') = map_option cache (map_of two_roots_read ''B'')
      \<and> map_option cache (map_of tB ''B'') = Some []
      \<and> map_option cache (map_of tB ''A'') = map_option cache (map_of two_roots_read ''A''))"
proof
  assume "\<exists>invalidate tA tB.
        setattr_name_with invalidate two_roots_read ''A'' ''A2'' = Inr tA
      \<and> setattr_name_with invalidate two_roots_read ''B'' ''B2'' = Inr tB
      \<and> map_option cache (map_of tA ''A'') = Some []
      \<and> map_option cache (map_of tA ''B'') = map_option cache (map_of two_roots_read ''B'')
      \<and> map_option cache (map_of tB ''B'') = Some []
      \<and> map_option cache (map_of tB ''A'') = map_option cache (map_of two_roots_read ''A'')"
  then obtain inv tA tB where
    A: "setattr_name_with inv two_roots_read ''A'' ''A2'' = Inr tA" and
    B: "setattr_name_with inv two_roots_read ''B'' ''B2'' = Inr tB" and
    keepB: "map_option cache (map_of tA ''B'') = map_option cache (map_of two_roots_read ''B'')" and
    clearB: "map_option cache (map_of tB ''B'') = Some []"
    by blast
  define t1 where "t1 = inv two_roots_read"
  have okA: "validate_name two_roots_read (the (map_of two_roots_read ''A'')) ''A2'' = Inr ()"
    by (simp add: validate_name_def siblings_def roots_def two_roots_read_def mk_var_def)
  have okB: "validate_name two_roots_read (the (map_of two_roots_read ''B'')) ''B2'' = Inr ()"
    by (simp add: validate_name_def siblings_def roots_def two_roots_read_def mk_var_def)
  have inA: "map_of two_roots_read ''A'' \<noteq> None" and inB: "map_of two_roots_read ''B'' \<noteq> None"
    by (simp_all add: two_roots_read_def)
  have tA: "map_option cache (map_of tA ''B'') = map_option cache (map_of t1 ''B'')"
    using A okA inA
    by (auto simp: setattr_name_with_def Let_def t1_def update_conv' split: option.splits)
  have tB: "map_option cache (map_of tB ''B'') = map_option cache (map_of t1 ''B'')"
    using B okB inB
    by (auto simp: setattr_name_with_def Let_def t1_def update_conv' split: option.splits)
  have "map_option cache (map_of two_roots_read ''B'') = Some []"
    using tA tB keepB clearB by simp
  then show False
    by (simp add: two_roots_read_def)
qed

section \<open>The change CalculateWeightGain\<close>

lemma nested_put_succeeds:
  "p \<noteq> [] \<Longrightarrow> mappings_along j p \<Longrightarrow> \<exists>d'. nested_put j p v = Inr (JDict d')"
proof (induction j p v rule: nested_put.induct)
  case (1 j v)
  then show ?case by simp
next
  case (2 j k v)
  then show ?case by (cases j) auto
next
  case (3 j k k' ks v)
  from "3.prems" obtain d where d: "j = JDict d"
    by (cases j) auto
  define sub0 where "sub0 = (case map_of d k of None \<Rightarrow> JDict [] | Some sub \<Rightarrow> sub)"
  have along: "mappings_along sub0 (k' # ks)"
  proof (cases "map_of d k")
    case None
    then show ?thesis by (simp add: sub0_def)
  next
    case (Some sub)
    with "3.prems"(2) d have "mappings_along sub (k' # ks)"
      by (simp del: mappings_along.simps(2) add: mappings_along.simps(2)[of "JDict d" k])
    with Some show ?thesis by (simp add: sub0_def)
  qed
  have "\<exists>d'. nested_put sub0 (k' # ks) v = Inr (JDict d')"
    unfolding sub0_def using d along[unfolded sub0_def] by (intro "3.IH") simp_all
  then obtain d' where "nested_put sub0 (k' # ks) v = Inr (JDict d')"
    by blast
  with d show ?case
    by (simp add: sub0_def)
qed

lemma nested_put_get: "nested_put j p v = Inr j' \<Longrightarrow> nested_get j' p = Inr v"
proof (induction j p v arbitrary: j' rule: nested_put.induct)
  case (1 j v)
  then show ?case by simp
next
  case (2 j k v)
  then show ?case by (cases j) (auto simp: update_conv')
next
  case (3 j k k' ks v)
  from "3.prems" obtain d where d: "j = JDict d"
    by (cases j) auto
  define sub0 where "sub0 = (case map_of d k of None \<Rightarrow> JDict [] | Some sub \<Rightarrow> sub)"
  from "3.prems" d obtain sub' where sub': "nested_put sub0 (k' # ks) v = Inr sub'"
    "j' = JDict (AList.update k sub' d)"
    by (auto simp: sub0_def split: sum.splits)
  from "3.IH"[OF d] sub'(1) have "nested_get sub' (k' # ks) = Inr v"
    unfolding sub0_def by blast
  with sub'(2) show ?case
    by (simp add: update_conv')
qed

lemma nested_put_frame:
  "nested_put j p v = Inr j' \<Longrightarrow> unrelated p q \<Longrightarrow> nested_get j' q = nested_get j q"
proof (induction j p v arbitrary: j' q rule: nested_put.induct)
  case (1 j v)
  then show ?case by simp
next
  case (2 j k v)
  from "2.prems" obtain d where d: "j = JDict d" "j' = JDict (AList.update k v d)"
    by (cases j) auto
  from "2.prems"(2) obtain k' qs where q: "q = k' # qs" "k' \<noteq> k"
    by (cases q) (auto simp: unrelated_def)
  with d show ?case
    by (simp add: update_conv')
next
  case (3 j k k' ks v)
  from "3.prems" obtain d where d: "j = JDict d"
    by (cases j) auto
  define sub0 where "sub0 = (case map_of d k of None \<Rightarrow> JDict [] | Some sub \<Rightarrow> sub)"
  from "3.prems" d obtain sub' where sub': "nested_put sub0 (k' # ks) v = Inr sub'"
    "j' = JDict (AList.update k sub' d)"
    by (auto simp: sub0_def split: sum.splits)
  from "3.prems"(2) obtain c qs where q: "q = c # qs"
    by (cases q) (auto simp: unrelated_def)
  show ?case
  proof (cases "c = k")
    case False
    with q d sub' show ?thesis
      by (simp add: update_conv')
  next
    case True
    have un: "unrelated (k' # ks) qs"
      using "3.prems"(2) q True by (simp add: unrelated_def)
    then obtain c' qs' where qs: "qs = c' # qs'"
      by (cases qs) (auto simp: unrelated_def)
    have "nested_get sub' qs = nested_get sub0 qs"
      using "3.IH"[OF d] sub'(1) un unfolding sub0_def by blast
    moreover have "nested_get j q = nested_get sub0 qs"
      using d q True qs by (auto simp: sub0_def split: option.splits)
    moreover have "nested_get j' q = nested_get sub' qs"
      using sub'(2) q True by (simp add: update_conv')
    ultimately show ?thesis by simp
  qed
qed

lemma order_2020_2021: "''2020'' < ''2021''"
  by (simp add: less_char_def)

lemma periods_2020_2021:
  assumes "set periods = {''2020'', ''2021''}"
  shows "periods \<noteq> []" and "Min (set periods) = ''2020''" and "Max (set periods) = ''2021''"
proof -
  show "periods \<noteq> []"
  proof
    assume "periods = []"
    then have "set periods = {}" by simp
    with assms show False by simp
  qed
  have "Min {''2020'', ''2021''} = ''2020''"
    using order_2020_2021 by (simp add: min_def less_imp_le)
  then show "Min (set periods) = ''2020''"
    by (simp only: assms)
  have "Max {''2020'', ''2021''} = ''2021''"
    using order_2020_2021 by (simp add: max_def less_imp_le)
  then show "Max (set periods) = ''2021''"
    by (simp only: assms)
qed

text \<open>
  The call with any get and put: when the composite has exactly the periods 2020 and 2021
  and \<open>get\<close> finds 70.0 and 75.0 at the weight path under them, the call is the single
  \<open>put\<close> of 5.0 at the weight-gain path under \<^verbatim>\<open>"invariant"\<close>.
\<close>

lemma CalculateWeightGain_call_is_one_put:
  assumes "set (filter (\<lambda>k. k \<noteq> ''invariant'') (map fst c)) = {''2020'', ''2021''}"
    and "absolute_path track weight_var = Some (Inr (wpath, track1))"
    and "absolute_path track1 gain_var = Some (Inr (gpath, track2))"
    and "get c (''2020'' # wpath) = Inr (JFloat 70)"
    and "get c (''2021'' # wpath) = Inr (JFloat 75)"
  shows "CalculateWeightGain_call get put track weight_var gain_var c
       = Some (put c (''invariant'' # gpath) (JFloat 5))"
proof -
  note p = periods_2020_2021[OF assms(1)]
  have sub: "py_sub (JFloat 75) (JFloat 70) = Inr (JFloat 5)"
    by (simp add: py_sub_def)
  show ?thesis
    unfolding CalculateWeightGain_call_def Let_def
    by (simp only: p assms(2-5) sub if_False bind.simps sum.case prod.case)
qed

text \<open>
  C9. For a composite whose periods are exactly 2020 and 2021, with 70.0 and 75.0 at the
  weight path under them and nothing but mappings on the way to the weight-gain path under
  \<^verbatim>\<open>"invariant"\<close>, the change returns a composite that holds 5.0 at the weight-gain path
  under \<^verbatim>\<open>"invariant"\<close> and holds at every path unrelated to that one what it held before.
\<close>

theorem CalculateWeightGain_writes_gain:
  assumes "set (filter (\<lambda>k. k \<noteq> ''invariant'') (map fst c)) = {''2020'', ''2021''}"
    and "absolute_path track weight_var = Some (Inr (wpath, track1))"
    and "absolute_path track1 gain_var = Some (Inr (gpath, track2))"
    and "nesteddicts_get c (''2020'' # wpath) = Inr (JFloat 70)"
    and "nesteddicts_get c (''2021'' # wpath) = Inr (JFloat 75)"
    and "mappings_along (JDict c) (''invariant'' # gpath)"
  shows "\<exists>c'. CalculateWeightGain_call nesteddicts_get nesteddicts_put track weight_var gain_var c
                = Some (Inr c')
     \<and> nesteddicts_get c' (''invariant'' # gpath) = Inr (JFloat 5)
     \<and> (\<forall>q. unrelated (''invariant'' # gpath) q \<longrightarrow> nesteddicts_get c' q = nesteddicts_get c q)"
proof -
  have call: "CalculateWeightGain_call nesteddicts_get nesteddicts_put track weight_var gain_var c
      = Some (nesteddicts_put c (''invariant'' # gpath) (JFloat 5))"
    using assms(1-5) by (rule CalculateWeightGain_call_is_one_put)
  from nested_put_succeeds[OF _ assms(6), of "JFloat 5"]
  obtain c' where c': "nested_put (JDict c) (''invariant'' # gpath) (JFloat 5) = Inr (JDict c')"
    by auto
  then have put: "nesteddicts_put c (''invariant'' # gpath) (JFloat 5) = Inr c'"
    by (simp add: nesteddicts_put_def)
  have "nesteddicts_get c' (''invariant'' # gpath) = Inr (JFloat 5)"
    unfolding nesteddicts_get_def using c' by (rule nested_put_get)
  moreover have "nesteddicts_get c' q = nesteddicts_get c q"
    if "unrelated (''invariant'' # gpath) q" for q
    unfolding nesteddicts_get_def using c' that by (rule nested_put_frame)
  ultimately show ?thesis
    using call put by auto
qed

theorem CalculateWeightGain_writes_gain_witness:
  "CalculateWeightGain_call nesteddicts_get nesteddicts_put vitals_track ''weight'' ''weight_gain''
      [(''2020'', JDict [(''weight'', JFloat 70)]), (''2021'', JDict [(''weight'', JFloat 75)])]
     = Some (Inr [(''2020'', JDict [(''weight'', JFloat 70)]),
                  (''2021'', JDict [(''weight'', JFloat 75)]),
                  (''invariant'', JDict [(''weight_gain'', JFloat 5)])])
   \<and> nesteddicts_get [(''2020'', JDict [(''weight'', JFloat 70)]),
                  (''2021'', JDict [(''weight'', JFloat 75)]),
                  (''invariant'', JDict [(''weight_gain'', JFloat 5)])] [''2021'', ''weight'']
     = Inr (JFloat 75)"
proof -
  define c where "c = [(''2020'', JDict [(''weight'', JFloat 70)]),
    (''2021'', JDict [(''weight'', JFloat 75)])]"
  define track1 where "track1 = memo ''weight'' K_absolute_path (Path [''weight'']) vitals_track"
  define track2 where "track2 = memo ''weight_gain'' K_absolute_path (Path [''weight_gain'']) track1"
  have periods: "set (filter (\<lambda>k. k \<noteq> ''invariant'') (map fst c)) = {''2020'', ''2021''}"
    by (simp add: c_def)
  have wp: "absolute_path vitals_track ''weight'' = Some (Inr ([''weight''], track1))"
    by (simp add: absolute_path.simps vitals_track_def mk_var_def track1_def)
  have gp: "absolute_path track1 ''weight_gain'' = Some (Inr ([''weight_gain''], track2))"
    by (simp add: absolute_path.simps vitals_track_def mk_var_def track1_def track2_def memo_def)
  have w0: "nesteddicts_get c [''2020'', ''weight''] = Inr (JFloat 70)"
    and w1: "nesteddicts_get c [''2021'', ''weight''] = Inr (JFloat 75)"
    by (simp_all add: nesteddicts_get_def c_def)
  have along: "mappings_along (JDict c) [''invariant'', ''weight_gain'']"
    by (simp add: c_def)
  have un: "unrelated [''invariant'', ''weight_gain''] [''2021'', ''weight'']"
    by (simp add: unrelated_def)
  from CalculateWeightGain_writes_gain [OF periods wp gp w0 w1 along]
  obtain c' where c': "CalculateWeightGain_call nesteddicts_get nesteddicts_put vitals_track
        ''weight'' ''weight_gain'' c = Some (Inr c')"
      "nesteddicts_get c' [''2021'', ''weight''] = nesteddicts_get c [''2021'', ''weight'']"
    using un by blast
  have "CalculateWeightGain_call nesteddicts_get nesteddicts_put vitals_track
        ''weight'' ''weight_gain'' c
      = Some (Inr (c @ [(''invariant'', JDict [(''weight_gain'', JFloat 5)])]))"
    unfolding CalculateWeightGain_call_is_one_put
        [where get = nesteddicts_get and put = nesteddicts_put, OF periods wp gp w0 w1]
    by (simp add: nesteddicts_put_def c_def)
  with c' w1 show ?thesis
    unfolding c_def by simp
qed

end
